theory Spec2Isabelle
  imports Main "HOL-Library.Sublist"
begin

section \<open>The deployment script deploy.py\<close>

text \<open>
  The script reads a changelog for a version string, renders the manual, inlines
  scripts and images into one HTML page, stamps the service worker and copies the
  results into a target directory. Every function of the script is embedded below as
  a function on an explicit world: the files, the directories and what was printed.
\<close>

subsection \<open>Python text operations\<close>

text \<open>
  A text is a \<open>string\<close>; a \<open>char\<close> stands for one character of the text (a code point
  below 256), or for one byte where a file is read in binary mode. Newline translation
  is taken as done: the only line terminator inside a text is the line feed.
\<close>

abbreviation NL :: char where
  "NL \<equiv> CHR ''\<newline>''"

text \<open>\<open>str.isspace\<close> on one character, for the code points below 256.\<close>

definition py_isspace :: "char \<Rightarrow> bool" where
  "py_isspace c = (c \<in> set [CHR 0x09, NL, CHR 0x0B, CHR 0x0C, CHR 0x0D,
     CHR 0x1C, CHR 0x1D, CHR 0x1E, CHR 0x1F, CHR 0x20, CHR 0x85, CHR 0xA0])"

text \<open>\<open>str.strip()\<close>: white space is removed at both ends.\<close>

definition py_strip :: "string \<Rightarrow> string" where
  "py_strip s = rev (dropWhile py_isspace (rev (dropWhile py_isspace s)))"

text \<open>
  \<open>f.readline()\<close> on a freshly opened file: the text up to and including the first
  line feed, or the whole text when there is none.
\<close>

fun readline :: "string \<Rightarrow> string" where
  "readline [] = []"
| "readline (c # cs) = (if c = NL then [c] else c # readline cs)"

text \<open>
  \<open>for line in f\<close>: the lines of a text, each with its terminator; a last line
  without terminator is kept when it is not empty. The first argument is the line
  read so far.
\<close>

fun lines_from :: "string \<Rightarrow> string \<Rightarrow> string list" where
  "lines_from cur [] = (if cur = [] then [] else [cur])"
| "lines_from cur (c # cs) =
     (if c = NL then (cur @ [c]) # lines_from [] cs else lines_from (cur @ [c]) cs)"

definition file_lines :: "string \<Rightarrow> string list" where
  "file_lines s = lines_from [] s"

text \<open>
  \<open>s.split(sep)\<close> for a separator that is not empty (Python raises ValueError on the
  empty one; the script only splits on a constant): the occurrences of \<open>sep\<close> are
  found from left to right, without overlap. The second argument is the piece read
  so far.
\<close>

fun py_split :: "string \<Rightarrow> string \<Rightarrow> string \<Rightarrow> string list" where
  "py_split sep cur [] = [cur]"
| "py_split sep cur (c # cs) =
     (if sep \<noteq> [] \<and> prefix sep (c # cs)
      then cur # py_split sep [] (drop (length sep - 1) cs)
      else py_split sep (cur @ [c]) cs)"

text \<open>
  \<open>s.replace(old, new)\<close>: every occurrence of \<open>old\<close>, found from left to right
  without overlap, becomes \<open>new\<close>; an empty \<open>old\<close> matches before every character
  and at the end.
\<close>

fun py_replace :: "string \<Rightarrow> string \<Rightarrow> string \<Rightarrow> string" where
  "py_replace [] new s = new @ concat (map (\<lambda>c. c # new) s)"
| "py_replace (a # old) new [] = []"
| "py_replace (a # old) new (c # cs) =
     (if prefix (a # old) (c # cs)
      then new @ py_replace (a # old) new (drop (length old) cs)
      else c # py_replace (a # old) new cs)"

subsection \<open>Regular expressions, as the \<open>re\<close> module matches them\<close>

text \<open>
  The four patterns of \<open>embed\<close> are built from literals, greedy stars over a
  character class and the end anchor. A pattern is a function from the rest of the
  input to the captured groups, written in continuation style so that backtracking
  is explicit: a greedy star first tries to take one more character, and gives it
  back when the rest of the pattern fails. \<open>re.match\<close> anchors at the start.
\<close>

definition lit :: "string \<Rightarrow> (string \<Rightarrow> 'a option) \<Rightarrow> string \<Rightarrow> 'a option" where
  "lit p k s = (if prefix p s then k (drop (length p) s) else None)"

fun star :: "(char \<Rightarrow> bool) \<Rightarrow> (string \<Rightarrow> 'a option) \<Rightarrow> string \<Rightarrow> (string \<times> 'a) option" where
  "star P k [] = map_option (Pair []) (k [])"
| "star P k (c # cs) =
     (case (if P c then star P k cs else None) of
        Some (g, r) \<Rightarrow> Some (c # g, r)
      | None \<Rightarrow> map_option (Pair []) (k (c # cs)))"

text \<open>The dot matches every character but the line feed.\<close>

definition dot :: "char \<Rightarrow> bool" where
  "dot c = (c \<noteq> NL)"

text \<open>The classes \<open>[a-z0-9_\-]\<close> and \<open>[a-z0-9_\-\/]\<close>.\<close>

definition name_char :: "char \<Rightarrow> bool" where
  "name_char c = (c \<in> set ''abcdefghijklmnopqrstuvwxyz0123456789_-'')"

definition path_char :: "char \<Rightarrow> bool" where
  "path_char c = (c \<in> set ''abcdefghijklmnopqrstuvwxyz0123456789_-/'')"

text \<open>
  \<open>$\<close> without the MULTILINE flag: the end of the text, or the place before a line
  feed that ends the text.
\<close>

definition eol :: "string \<Rightarrow> unit option" where
  "eol s = (if s = [] \<or> s = [NL] then Some () else None)"

definition accept :: "string \<Rightarrow> unit option" where
  "accept s = Some ()"

text \<open>\<open>^<script src="(.*)"></script>\<close>; the result is group 1.\<close>

definition script_pattern :: "string \<Rightarrow> string option" where
  \<open>script_pattern line =
     map_option fst (lit ''<script src="'' (star dot (lit ''"></script>'' accept)) line)\<close>

text \<open>\<open>.*Settings \((version)\).*\<close>; only whether it matches is used.\<close>

definition version_pattern :: "string \<Rightarrow> bool" where
  "version_pattern line =
     (star dot (lit ''Settings (version)'' (star dot accept)) line \<noteq> None)"

text \<open>\<open>^(.*)url\(([a-z0-9_\-]*\.png)\)(.*)$\<close>; the result is groups 1, 2 and 3.\<close>

definition urlpng_pattern :: "string \<Rightarrow> (string \<times> string \<times> string) option" where
  "urlpng_pattern line =
     (case star dot (lit ''url('' (star name_char (lit ''.png'' (lit '')''
             (star dot eol))))) line of
        None \<Rightarrow> None
      | Some (g1, n, g3, _) \<Rightarrow> Some (g1, n @ ''.png'', g3))"

text \<open>\<open>^(.*<img.*)src="([a-z0-9_\-\/]*\.png)"(.*)$\<close>; the result is groups 1, 2 and 3.\<close>

definition urlpng2_pattern :: "string \<Rightarrow> (string \<times> string \<times> string) option" where
  \<open>urlpng2_pattern line =
     (case star dot (lit ''<img'' (star dot (lit ''src="'' (star path_char
             (lit ''.png'' (lit ''"'' (star dot eol))))))) line of
        None \<Rightarrow> None
      | Some (a, b, n, g3, _) \<Rightarrow> Some (a @ ''<img'' @ b, n @ ''.png'', g3))\<close>

subsection \<open>Base64\<close>

text \<open>
  \<open>base64.b64encode\<close>, the standard alphabet with padding: three bytes become four
  digits of six bits each.
\<close>

definition b64_digit :: "nat \<Rightarrow> char" where
  "b64_digit n =
     ''ABCDEFGHIJKLMNOPQRSTUVWXYZabcdefghijklmnopqrstuvwxyz0123456789+/'' ! (n mod 64)"

fun b64encode :: "string \<Rightarrow> string" where
  "b64encode [] = []"
| "b64encode [a] =
     (let x = (of_char a :: nat)
      in [b64_digit (x div 4), b64_digit (x mod 4 * 16), CHR ''='', CHR ''=''])"
| "b64encode [a, b] =
     (let x = (of_char a :: nat); y = (of_char b :: nat)
      in [b64_digit (x div 4), b64_digit (x mod 4 * 16 + y div 16),
          b64_digit (y mod 16 * 4), CHR ''=''])"
| "b64encode (a # b # c # rest) =
     (let x = (of_char a :: nat); y = (of_char b :: nat); z = (of_char c :: nat)
      in [b64_digit (x div 4), b64_digit (x mod 4 * 16 + y div 16),
          b64_digit (y mod 16 * 4 + z div 64), b64_digit (z mod 64)] @ b64encode rest)"

subsection \<open>The world: files, directories, standard output\<close>

text \<open>
  A path is a name, compared as a string. Reading a file raises when the path is a
  directory or when there is no such file; every exception the script can meet is a
  value of \<open>exn\<close>, and a function that may raise returns \<open>exn + 'a\<close>.
  \<open>PrintErr p e\<close> is the printed line \<open>p\<close> followed by the text of the exception.
\<close>

datatype exn =
    FileNotFoundError string
  | FileExistsError string
  | IsADirectoryError string
  | NotADirectoryError string
  | SameFileError string
  | OtherError string

datatype event = Print string | PrintErr string exn

record world =
  files :: "string \<Rightarrow> string option"
  dirs :: "string set"
  out :: "event list"

definition print :: "event \<Rightarrow> world \<Rightarrow> world" where
  "print ev w = w\<lparr>out := out w @ [ev]\<rparr>"

text \<open>\<open>open(p, 'r')\<close> followed by \<open>read()\<close>.\<close>

definition open_read :: "world \<Rightarrow> string \<Rightarrow> exn + string" where
  "open_read w p =
     (if p \<in> dirs w then Inl (IsADirectoryError p)
      else case files w p of None \<Rightarrow> Inl (FileNotFoundError p) | Some c \<Rightarrow> Inr c)"

text \<open>
  \<open>open(p, 'w')\<close> creates the file or empties it. What is written afterwards is
  buffered and reaches the file when it is closed, also when an exception leaves the
  \<open>with\<close> block: \<open>file_put\<close> stores the buffer.
\<close>

definition file_put :: "string \<Rightarrow> string \<Rightarrow> world \<Rightarrow> world" where
  "file_put p c w = w\<lparr>files := (files w)(p \<mapsto> c)\<rparr>"

definition open_write :: "world \<Rightarrow> string \<Rightarrow> exn + world" where
  "open_write w p =
     (if p \<in> dirs w then Inl (IsADirectoryError p) else Inr (file_put p [] w))"

subsection \<open>The operating system's primitives\<close>

definition os_path_exists :: "world \<Rightarrow> string \<Rightarrow> bool" where
  "os_path_exists w p = (p \<in> dirs w \<or> files w p \<noteq> None)"

text \<open>
  \<open>os.makedirs(p)\<close> refuses an existing path and otherwise creates the directory.
  Parent directories are not modelled, since a path is only a name, and the creation
  itself is taken to succeed.
\<close>

definition os_makedirs :: "world \<Rightarrow> string \<Rightarrow> exn + world" where
  "os_makedirs w p =
     (if os_path_exists w p then Inl (FileExistsError p)
      else Inr (w\<lparr>dirs := insert p (dirs w)\<rparr>))"

text \<open>\<open>os.path.join(a, b)\<close> of posixpath.\<close>

definition os_path_join :: "string \<Rightarrow> string \<Rightarrow> string" where
  "os_path_join a b =
     (if prefix ''/'' b then b
      else if a = [] \<or> last a = CHR ''/'' then a @ b
      else a @ ''/'' @ b)"

text \<open>
  \<open>shutil.copyfile(src, dst)\<close>: the same existing file on both sides is refused, the
  source is opened first, then the destination. Two paths are the same file when they
  are the same name.
\<close>

definition shutil_copyfile :: "world \<Rightarrow> string \<Rightarrow> string \<Rightarrow> exn + world" where
  "shutil_copyfile w src dst =
     (if src = dst \<and> os_path_exists w src then Inl (SameFileError src)
      else case open_read w src of
        Inl e \<Rightarrow> Inl e
      | Inr c \<Rightarrow> (case open_write w dst of
          Inl e \<Rightarrow> Inl e
        | Inr w1 \<Rightarrow> Inr (file_put dst c w1)))"

text \<open>
  \<open>shutil.copytree(src, dst)\<close>: the source is listed, the destination must not exist
  and is created, then every file and directory below \<open>src\<close> appears below \<open>dst\<close>.
\<close>

definition shutil_copytree :: "world \<Rightarrow> string \<Rightarrow> string \<Rightarrow> exn + world" where
  "shutil_copytree w src dst =
     (if src \<notin> dirs w then
        (if files w src \<noteq> None then Inl (NotADirectoryError src)
         else Inl (FileNotFoundError src))
      else if os_path_exists w dst then Inl (FileExistsError dst)
      else Inr (w\<lparr>
        files := (\<lambda>p.
          if prefix (dst @ ''/'') p
          then (case files w (src @ ''/'' @ drop (length dst + 1) p) of
                  Some c \<Rightarrow> Some c
                | None \<Rightarrow> files w p)
          else files w p),
        dirs := insert dst (dirs w \<union>
          (\<lambda>d. dst @ drop (length src) d) ` {d \<in> dirs w. prefix (src @ ''/'') d})\<rparr>))"

subsection \<open>The functions of deploy.py\<close>

text \<open>
  \<open>copyf\<close> and \<open>copytree\<close> print, copy and catch what their \<open>except\<close> clauses
  name; the result is the exception that leaves the function, if any, with the world
  as it is then.
\<close>

definition copyf :: "string \<Rightarrow> string \<Rightarrow> world \<Rightarrow> exn option \<times> world" where
  "copyf src tgt w =
     (let w1 = print (Print (''Copying '' @ src @ '' -> '' @ tgt)) w
      in case shutil_copyfile w1 src tgt of
        Inr w2 \<Rightarrow> (None, w2)
      | Inl (FileNotFoundError p) \<Rightarrow>
          (None, print (PrintErr (''Error copying '' @ src @ '': '') (FileNotFoundError p)) w1)
      | Inl e \<Rightarrow> (Some e, w1))"

definition copytree :: "string \<Rightarrow> string \<Rightarrow> world \<Rightarrow> exn option \<times> world" where
  "copytree src tgt w =
     (let w1 = print (Print (''Copying directory '' @ src @ '' -> '' @ tgt)) w
      in case shutil_copytree w1 src tgt of
        Inr w2 \<Rightarrow> (None, w2)
      | Inl (FileNotFoundError p) \<Rightarrow>
          (None, print (PrintErr (''Error copying directory '' @ src @ '': '')
                   (FileNotFoundError p)) w1)
      | Inl (FileExistsError p) \<Rightarrow>
          (None, print (PrintErr (''Directory '' @ tgt @ '' already exists: '')
                   (FileExistsError p)) w1)
      | Inl e \<Rightarrow> (Some e, w1))"

text \<open>
  \<open>get_ver\<close>: the last piece of the stripped first line, split at \<open>: v\<close>. Index
  \<open>-1\<close> of an empty list would raise inside the \<open>try\<close>.
\<close>

definition get_ver :: "world \<Rightarrow> string option \<times> world" where
  "get_ver w =
     (case open_read w ''Changelog.md'' of
        Inl e \<Rightarrow> (None, print (PrintErr ''Error reading version: '' e) w)
      | Inr c \<Rightarrow>
          (let first = py_strip (readline c)
           in case py_split '': v'' [] first of
             [] \<Rightarrow> (None, print (PrintErr ''Error reading version: ''
                       (OtherError ''list index out of range'')) w)
           | x # xs \<Rightarrow> (Some (last (x # xs)), w)))"

text \<open>
  \<open>make_manual\<close>: the loop over the two parts appends each part to what is written
  to manual.html; the first argument of \<open>make_manual\<close> is the markdown converter.
\<close>

fun write_parts :: "world \<Rightarrow> string list \<Rightarrow> string \<Rightarrow> exn option \<times> string" where
  "write_parts w [] buf = (None, buf)"
| "write_parts w (part # parts) buf =
     (case open_read w part of
        Inl e \<Rightarrow> (Some e, buf)
      | Inr c \<Rightarrow> write_parts w parts (buf @ c))"

definition make_manual :: "(string \<Rightarrow> exn + string) \<Rightarrow> world \<Rightarrow> string \<times> world" where
  "make_manual convert w =
     (case open_read w ''README.md'' of
        Inl e \<Rightarrow> ([], print (PrintErr ''Error creating manual: '' e) w)
      | Inr text \<Rightarrow> (case convert text of
          Inl e \<Rightarrow> ([], print (PrintErr ''Error creating manual: '' e) w)
        | Inr html \<Rightarrow> (case open_write w ''manual.html'' of
            Inl e \<Rightarrow> ([], print (PrintErr ''Error creating manual: '' e) w)
          | Inr w1 \<Rightarrow> (case write_parts w1 [''header.html'', ''footer.html''] [] of
              (Some e, buf) \<Rightarrow>
                ([], print (PrintErr ''Error creating manual: '' e)
                       (file_put ''manual.html'' buf w1))
            | (None, buf) \<Rightarrow> (html, file_put ''manual.html'' (buf @ html) w1)))))"

definition embed_service_worker :: "string \<Rightarrow> world \<Rightarrow> world" where
  "embed_service_worker version w =
     (case open_read w ''sw.js'' of
        Inl e \<Rightarrow> print (PrintErr ''Error embedding service worker: '' e) w
      | Inr c \<Rightarrow> (case open_write w ''sw_deploy.js'' of
          Inl e \<Rightarrow> print (PrintErr ''Error embedding service worker: '' e) w
        | Inr w1 \<Rightarrow> file_put ''sw_deploy.js'' (py_replace ''VERSION'' version c) w1))"

definition png_encode :: "string \<Rightarrow> world \<Rightarrow> string \<times> world" where
  "png_encode path w =
     (case open_read w path of
        Inl e \<Rightarrow> ([], print (PrintErr ''Error encoding PNG: '' e) w)
      | Inr png \<Rightarrow> (''data:image/png;base64,'' @ b64encode png, w))"

text \<open>
  The body of the loop of \<open>embed\<close>: what one template line adds to the output, or
  the exception that leaves the loop.
\<close>

definition embed_line :: "string \<Rightarrow> string \<Rightarrow> string \<Rightarrow> world \<Rightarrow> exn + string \<times> world" where
  \<open>embed_line manual version line w =
     (let m = script_pattern line; v = version_pattern line;
          u = urlpng_pattern line; u2 = urlpng2_pattern line
      in case m of
        Some src \<Rightarrow> (case open_read w src of
            Inl e \<Rightarrow> Inl e
          | Inr inline_content \<Rightarrow>
              Inr (''<script>\<newline>'' @ inline_content @ ''</script>\<newline>'', w))
      | None \<Rightarrow>
          if v then Inr (py_replace ''version'' version line, w)
          else (case u of
            Some (g1, g2, g3) \<Rightarrow>
              (let (b64png, w') = png_encode g2 w
               in Inr (g1 @ ''url('' @ b64png @ '')'' @ g3 @ ''\<newline>'', w'))
          | None \<Rightarrow> (case u2 of
              Some (g1, g2, g3) \<Rightarrow>
                (let (b64png, w') = png_encode g2 w
                 in Inr (g1 @ ''src="'' @ b64png @ ''"'' @ g3 @ ''\<newline>'', w'))
            | None \<Rightarrow>
                if py_strip line = ''MANUAL'' then Inr (manual, w)
                else Inr (line, w))))\<close>

text \<open>The loop: the second component of the state is what was written so far.\<close>

fun embed_loop ::
  "string \<Rightarrow> string \<Rightarrow> string list \<Rightarrow> string \<Rightarrow> world \<Rightarrow> exn option \<times> string \<times> world" where
  "embed_loop manual version [] buf w = (None, buf, w)"
| "embed_loop manual version (line # rest) buf w =
     (case embed_line manual version line w of
        Inl e \<Rightarrow> (Some e, buf, w)
      | Inr (chunk, w') \<Rightarrow> embed_loop manual version rest (buf @ chunk) w')"

definition embed :: "string \<Rightarrow> string \<Rightarrow> world \<Rightarrow> world" where
  "embed manual version w =
     (case open_read w ''astrohopper.html'' of
        Inl e \<Rightarrow> print (PrintErr ''Error embedding: '' e) w
      | Inr template \<Rightarrow> (case open_write w ''astrohopper_deploy.html'' of
          Inl e \<Rightarrow> print (PrintErr ''Error embedding: '' e) w
        | Inr w1 \<Rightarrow> (case embed_loop manual version (file_lines template) [] w1 of
            (None, buf, w2) \<Rightarrow> file_put ''astrohopper_deploy.html'' buf w2
          | (Some e, buf, w2) \<Rightarrow>
              print (PrintErr ''Error embedding: '' e)
                (file_put ''astrohopper_deploy.html'' buf w2))))"

text \<open>The loop of \<open>deploy_files\<close> over the files to copy.\<close>

fun copy_loop :: "string \<Rightarrow> string list \<Rightarrow> world \<Rightarrow> world" where
  "copy_loop target [] w = w"
| "copy_loop target (file_name # rest) w =
     copy_loop target rest
       (case copyf file_name (os_path_join target file_name) w of
          (None, w') \<Rightarrow> w'
        | (Some e, w') \<Rightarrow> print (PrintErr (''Error copying '' @ file_name @ '': '') e) w')"

definition files_to_copy :: "string list" where
  "files_to_copy = [''astrohopper_deploy.html'', ''sw_deploy.js'', ''LICENSE'',
     ''COPYING.md'', ''manual.html'', ''manifest.json'']"

definition deploy_files :: "string \<Rightarrow> world \<Rightarrow> exn + world" where
  "deploy_files target w =
     (case (if \<not> os_path_exists w target then os_makedirs w target else Inr w) of
        Inl e \<Rightarrow> Inl e
      | Inr w1 \<Rightarrow>
          (let w2 = copy_loop target files_to_copy w1
           in case copytree ''icons'' (os_path_join target ''icons'') w2 of
             (None, w3) \<Rightarrow> Inr w3
           | (Some e, w3) \<Rightarrow>
               Inr (print (PrintErr ''Error copying images directory: '' e) w3)))"

text \<open>
  \<open>main\<close>: \<open>create_db\<close> comes from another module and is a parameter, as is the
  markdown converter; \<open>argv\<close> is \<open>sys.argv\<close>.
\<close>

definition main ::
  "(world \<Rightarrow> exn + world) \<Rightarrow> (string \<Rightarrow> exn + string) \<Rightarrow> string list \<Rightarrow> world \<Rightarrow> exn + world" where
  "main create_db convert argv w =
     (case create_db w of
        Inl e \<Rightarrow> Inl e
      | Inr w0 \<Rightarrow>
          (let (ver, w1) = get_ver w0
           in case ver of
             None \<Rightarrow> Inr (print (Print ''Version could not be determined.'') w1)
           | Some version \<Rightarrow>
               if version = [] then Inr (print (Print ''Version could not be determined.'') w1)
               else
                 (let (man, w2) = make_manual convert w1;
                      w3 = embed man version w2;
                      w4 = embed_service_worker version w3;
                      target_dir = (if length argv > 1 then argv ! 1 else ''_deploy'')
                  in deploy_files target_dir w4)))"

subsection \<open>Example worlds\<close>

text \<open>A world that holds only a changelog with the given text.\<close>

definition changelog_world :: "string \<Rightarrow> world" where
  "changelog_world c = \<lparr>files = [''Changelog.md'' \<mapsto> c], dirs = {}, out = []\<rparr>"

text \<open>A world with no file and no directory.\<close>

definition empty_world :: world where
  "empty_world = \<lparr>files = Map.empty, dirs = {}, out = []\<rparr>"

text \<open>A world with the three inputs of the manual, and a stand-in for the markdown converter.\<close>

definition manual_world :: world where
  "manual_world = \<lparr>files = [''README.md'' \<mapsto> ''hi'', ''header.html'' \<mapsto> ''<body>'',
     ''footer.html'' \<mapsto> ''</body>''], dirs = {}, out = []\<rparr>"

definition example_convert :: "string \<Rightarrow> exn + string" where
  "example_convert t = Inr (''<p>'' @ t @ ''</p>'')"

text \<open>A world whose template is one script include, with the script it names.\<close>

definition script_world :: world where
  \<open>script_world = \<lparr>files = [''astrohopper.html'' \<mapsto> ''<script src="app.js"></script>\<newline>'',
     ''app.js'' \<mapsto> ''x = 1;\<newline>''], dirs = {}, out = []\<rparr>\<close>



text \<open>
  What one template line adds to the output in a given world: the text part of the
  result of the loop body, and nothing when the line raises.
\<close>

definition line_output :: "string \<Rightarrow> string \<Rightarrow> world \<Rightarrow> string \<Rightarrow> string" where
  "line_output manual version w line =
     (case embed_line manual version line w of Inr (chunk, _) \<Rightarrow> chunk | Inl _ \<Rightarrow> [])"

text \<open>
  A template with a plain line, a manual marker and a version line; and a template
  that is one manual marker.
\<close>

definition page_world :: world where
  "page_world = \<lparr>files = [''astrohopper.html'' \<mapsto>
       ''<html>\<newline>  MANUAL \<newline><h1>Settings (version)</h1>\<newline>''],
     dirs = {}, out = []\<rparr>"

definition marker_world :: world where
  "marker_world = \<lparr>files = [''astrohopper.html'' \<mapsto> ''MANUAL\<newline>''],
     dirs = {}, out = []\<rparr>"


section \<open>Properties\<close>

subsection \<open>Splitting at the separator\<close>

lemma py_split_not_Nil: "py_split sep cur s \<noteq> []"
  by (induction sep cur s rule: py_split.induct) auto

lemma py_split_no_sep: "\<not> sublist sep s \<Longrightarrow> py_split sep cur s = [cur @ s]"
proof (induction s arbitrary: cur)
  case Nil
  then show ?case by simp
next
  case (Cons c cs)
  from Cons.prems have np: "\<not> prefix sep (c # cs)" and ns: "\<not> sublist sep cs"
    by (auto simp: sublist_Cons_right)
  with Cons.IH [OF ns, of "cur @ [c]"] show ?case by simp
qed

lemma py_split_skip:
  "\<not> prefix sep (a # s) \<Longrightarrow> py_split sep cur (a # s) = py_split sep (cur @ [a]) s"
  by simp

lemma py_split_match:
  "sep \<noteq> [] \<Longrightarrow> py_split sep cur (sep @ s) = cur # py_split sep [] s"
  by (cases sep) auto

lemma prefix_sep_cases:
  assumes "prefix '': v'' (pre @ '': v'' @ v)"
  shows "pre = [] \<or> (\<exists>u. pre = '': v'' @ u)"
proof (cases pre)
  case Nil
  then show ?thesis by simp
next
  case p1: (Cons a p1)
  with assms have a: "a = CHR '':''" and r1: "prefix '' v'' (p1 @ '': v'' @ v)" by auto
  show ?thesis
  proof (cases p1)
    case Nil
    with r1 show ?thesis by simp
  next
    case p2: (Cons b p2)
    with r1 have b: "b = CHR '' ''" and r2: "prefix ''v'' (p2 @ '': v'' @ v)" by auto
    show ?thesis
    proof (cases p2)
      case Nil
      with r2 show ?thesis by simp
    next
      case (Cons c p3)
      with r2 have "c = CHR ''v''" by simp
      with a b p1 p2 Cons show ?thesis by simp
    qed
  qed
qed


lemma py_split_last:
  "\<not> sublist '': v'' v \<Longrightarrow> last (py_split '': v'' cur (pre @ '': v'' @ v)) = v"
proof (induction "length pre" arbitrary: pre cur rule: less_induct)
  case less
  show ?case
  proof (cases "prefix '': v'' (pre @ '': v'' @ v)")
    case False
    then obtain a pre' where p: "pre = a # pre'"
      by (cases pre) auto
    from False have "py_split '': v'' cur (pre @ '': v'' @ v)
        = py_split '': v'' (cur @ [a]) (pre' @ '': v'' @ v)"
      unfolding p append_Cons by (rule py_split_skip)
    moreover have "last (py_split '': v'' (cur @ [a]) (pre' @ '': v'' @ v)) = v"
      using less.hyps [of pre' "cur @ [a]"] less.prems p by simp
    ultimately show ?thesis by simp
  next
    case True
    from prefix_sep_cases [OF True] show ?thesis
    proof
      assume "pre = []"
      then have "py_split '': v'' cur (pre @ '': v'' @ v) = cur # py_split '': v'' [] v"
        using py_split_match [of "'': v''" cur v] by simp
      with less.prems show ?thesis by (simp add: py_split_no_sep)
    next
      assume "\<exists>u. pre = '': v'' @ u"
      then obtain u where u: "pre = '': v'' @ u" ..
      have "last (py_split '': v'' [] (u @ '': v'' @ v)) = v"
        using less.hyps [of u "[]"] less.prems u by simp
      moreover have "py_split '': v'' cur (pre @ '': v'' @ v)
          = cur # py_split '': v'' [] (u @ '': v'' @ v)"
        using py_split_match [of "'': v''" cur "u @ '': v'' @ v"] u by simp
      ultimately show ?thesis by (simp add: py_split_not_Nil)
    qed
  qed
qed

lemma last_occurrence:
  assumes "pre @ '': v'' @ v = pre' @ '': v'' @ v'" and "\<not> sublist '': v'' v"
  shows "length pre' \<le> length pre"
proof (rule ccontr)
  assume "\<not> length pre' \<le> length pre"
  with assms(1) obtain d where d: "pre' = pre @ d" "d \<noteq> []"
    by (auto simp: append_eq_append_conv2)
  with assms(1) have e: "'': v'' @ v = d @ '': v'' @ v'" by simp
  then have "prefix '': v'' (d @ '': v'' @ v')"
    by (metis prefixI)
  from prefix_sep_cases [OF this] d(2) obtain u where "d = '': v'' @ u" by blast
  with e have "v = u @ '': v'' @ v'" by simp
  then have "sublist '': v'' v" by (simp only: sublist_appendI)
  with assms(2) show False by simp
qed

text \<open>
  Claim C5. When the changelog can be read and its stripped first line is some prefix,
  the separator \<open>: v\<close> and a version string, the separator occurring nowhere later
  in the line, \<open>get_ver\<close> returns that version string and prints nothing.
\<close>

theorem get_ver_returns_version:
  assumes "open_read w ''Changelog.md'' = Inr c"
    and "py_strip (readline c) = pre @ '': v'' @ ver"
    and "\<forall>pre' ver'. py_strip (readline c) = pre' @ '': v'' @ ver' \<longrightarrow> length pre' \<le> length pre"
  shows "get_ver w = (Some ver, w)"
proof -
  have "\<not> sublist '': v'' ver"
  proof
    assume "sublist '': v'' ver"
    then obtain a b where "ver = a @ '': v'' @ b" by (auto simp: sublist_def)
    with assms(2) have "py_strip (readline c) = (pre @ '': v'' @ a) @ '': v'' @ b" by simp
    with assms(3) have "length (pre @ '': v'' @ a) \<le> length pre" by blast
    then show False by simp
  qed
  then have l: "last (py_split '': v'' [] (pre @ '': v'' @ ver)) = ver"
    by (rule py_split_last)
  obtain x xs where s: "py_split '': v'' [] (pre @ '': v'' @ ver) = x # xs"
    using py_split_not_Nil [of "'': v''" "[]" "pre @ '': v'' @ ver"] by (auto simp: neq_Nil_conv)
  show ?thesis
    using assms(1,2) l s by (simp add: get_ver_def Let_def)
qed

theorem get_ver_returns_version_witness:
  "get_ver (changelog_world ''Release notes: v2.3.1\<newline>## more'')
     = (Some ''2.3.1'', changelog_world ''Release notes: v2.3.1\<newline>## more'')"
proof -
  let ?c = "''Release notes: v2.3.1\<newline>## more''"
  have r: "open_read (changelog_world ?c) ''Changelog.md'' = Inr ?c"
    by (simp add: open_read_def changelog_world_def)
  have s: "py_strip (readline ?c) = ''Release notes'' @ '': v'' @ ''2.3.1''"
    by (simp add: py_strip_def py_isspace_def)
  have n: "\<not> sublist '': v'' ''2.3.1''"
    by (simp add: sublist_Cons_right)
  have "\<forall>pre' ver'. py_strip (readline ?c) = pre' @ '': v'' @ ver'
          \<longrightarrow> length pre' \<le> length ''Release notes''"
    unfolding s using last_occurrence [OF _ n] by blast
  from get_ver_returns_version [OF r s this] show ?thesis .
qed


subsection \<open>Reading the version\<close>

lemma get_ver_unreadable:
  "open_read w ''Changelog.md'' = Inl e \<Longrightarrow>
     get_ver w = (None, print (PrintErr ''Error reading version: '' e) w)"
  by (simp add: get_ver_def)

lemma get_ver_readable:
  assumes "open_read w ''Changelog.md'' = Inr c"
  shows "get_ver w = (Some (last (py_split '': v'' [] (py_strip (readline c)))), w)"
proof -
  obtain x xs where "py_split '': v'' [] (py_strip (readline c)) = x # xs"
    using py_split_not_Nil [of "'': v''" "[]" "py_strip (readline c)"]
    by (auto simp: neq_Nil_conv)
  with assms show ?thesis by (simp add: get_ver_def Let_def)
qed

lemma get_ver_unseparated:
  assumes "open_read w ''Changelog.md'' = Inr c"
    and "\<not> sublist '': v'' (py_strip (readline c))"
  shows "get_ver w = (Some (py_strip (readline c)), w)"
  using get_ver_readable [OF assms(1)] py_split_no_sep [OF assms(2), of "[]"] by simp

text \<open>
  Claim C6, amended. When the changelog cannot be read, \<open>get_ver\<close> prints the error
  and returns no value. When it can be read and its stripped first line does not
  contain the separator \<open>: v\<close>, \<open>get_ver\<close> returns that whole line as the version,
  not an absent value.
\<close>

theorem get_ver_absent_only_when_unreadable:
  "(open_read w ''Changelog.md'' = Inl e \<longrightarrow>
      get_ver w = (None, print (PrintErr ''Error reading version: '' e) w)) \<and>
   (open_read w ''Changelog.md'' = Inr c \<and> \<not> sublist '': v'' (py_strip (readline c)) \<longrightarrow>
      get_ver w = (Some (py_strip (readline c)), w))"
  using get_ver_unreadable get_ver_unseparated by blast

theorem get_ver_absent_only_when_unreadable_witness:
  "get_ver empty_world
     = (None, print (PrintErr ''Error reading version: '' (FileNotFoundError ''Changelog.md''))
          empty_world) \<and>
   get_ver (changelog_world ''Changelog\<newline>'')
     = (Some ''Changelog'', changelog_world ''Changelog\<newline>'')"
proof -
  have a: "open_read empty_world ''Changelog.md'' = Inl (FileNotFoundError ''Changelog.md'')"
    by (simp add: open_read_def empty_world_def)
  have b: "open_read (changelog_world ''Changelog\<newline>'') ''Changelog.md''
      = Inr ''Changelog\<newline>''"
    by (simp add: open_read_def changelog_world_def)
  have s: "py_strip (readline ''Changelog\<newline>'') = ''Changelog''"
    by (simp add: py_strip_def py_isspace_def)
  have n: "\<not> sublist '': v'' (py_strip (readline ''Changelog\<newline>''))"
    unfolding s by (simp add: sublist_Cons_right)
  from get_ver_absent_only_when_unreadable
         [of empty_world "FileNotFoundError ''Changelog.md''" "[]"] a
  have "get_ver empty_world
     = (None, print (PrintErr ''Error reading version: '' (FileNotFoundError ''Changelog.md''))
          empty_world)" by blast
  moreover from get_ver_absent_only_when_unreadable
         [of "changelog_world ''Changelog\<newline>''" undefined "''Changelog\<newline>''"] b n
  have "get_ver (changelog_world ''Changelog\<newline>'')
     = (Some (py_strip (readline ''Changelog\<newline>'')), changelog_world ''Changelog\<newline>'')"
    by blast
  ultimately show ?thesis unfolding s by simp
qed

text \<open>
  The claim as stated fails: a readable changelog whose first line has no separator
  gives a string.
\<close>

theorem get_ver_malformed_counterexample:
  "open_read (changelog_world ''Changelog\<newline>'') ''Changelog.md'' = Inr ''Changelog\<newline>'' \<and>
   \<not> sublist '': v'' (readline ''Changelog\<newline>'') \<and>
   fst (get_ver (changelog_world ''Changelog\<newline>'')) = Some ''Changelog''"
  by (simp add: get_ver_def open_read_def changelog_world_def py_strip_def py_isspace_def
        sublist_Cons_right)

subsection \<open>The orchestrator without a version\<close>

text \<open>
  Claim C7. When \<open>get_ver\<close> returns no value, \<open>main\<close> returns with the world that
  \<open>create_db\<close> left, plus two printed lines: the error of \<open>get_ver\<close> and the abort
  message. No file or directory changes, so none of the later steps has run.
\<close>

theorem main_halts_without_version:
  assumes "create_db w = Inr w0" and "fst (get_ver w0) = None"
  shows "\<exists>e. main create_db convert argv w
     = Inr (w0\<lparr>out := out w0 @ [PrintErr ''Error reading version: '' e,
                                 Print ''Version could not be determined.'']\<rparr>)"
proof (cases "open_read w0 ''Changelog.md''")
  case (Inl e)
  from get_ver_unreadable [OF Inl] assms(1) show ?thesis
    by (auto simp add: main_def print_def)
next
  case (Inr c)
  from get_ver_readable [OF Inr] assms(2) show ?thesis by simp
qed

theorem main_halts_without_version_witness:
  "\<exists>e. main Inr Inr [''deploy.py''] empty_world
     = Inr (empty_world\<lparr>out := out empty_world @ [PrintErr ''Error reading version: '' e,
                                 Print ''Version could not be determined.'']\<rparr>)"
proof -
  have "fst (get_ver empty_world) = None"
    by (simp add: get_ver_def open_read_def empty_world_def)
  from main_halts_without_version [of Inr empty_world empty_world, OF refl this]
  show ?thesis .
qed

text \<open>
  Claim C10. When the stripped first line of the changelog ends with the separator,
  \<open>get_ver\<close> returns the empty string without printing, and \<open>main\<close> prints the abort
  message and returns with the world otherwise unchanged, as for an absent version.
\<close>

theorem main_halts_on_empty_version:
  assumes "create_db w = Inr w0"
    and "open_read w0 ''Changelog.md'' = Inr c"
    and "py_strip (readline c) = pre @ '': v''"
  shows "get_ver w0 = (Some [], w0) \<and>
    main create_db convert argv w = Inr (print (Print ''Version could not be determined.'') w0)"
proof -
  have "last (py_split '': v'' [] (pre @ '': v'' @ [])) = []"
    by (rule py_split_last) simp
  with get_ver_readable [OF assms(2)] assms(3) have g: "get_ver w0 = (Some [], w0)"
    by simp
  with assms(1) show ?thesis by (simp add: main_def)
qed

theorem main_halts_on_empty_version_witness:
  "get_ver (changelog_world ''Notes: v\<newline>'') = (Some [], changelog_world ''Notes: v\<newline>'') \<and>
   main Inr Inr [''deploy.py''] (changelog_world ''Notes: v\<newline>'')
     = Inr (print (Print ''Version could not be determined.'') (changelog_world ''Notes: v\<newline>''))"
proof -
  have r: "open_read (changelog_world ''Notes: v\<newline>'') ''Changelog.md'' = Inr ''Notes: v\<newline>''"
    by (simp add: open_read_def changelog_world_def)
  have s: "py_strip (readline ''Notes: v\<newline>'') = ''Notes'' @ '': v''"
    by (simp add: py_strip_def py_isspace_def)
  from main_halts_on_empty_version [of Inr, OF refl r s] show ?thesis .
qed


subsection \<open>The manual\<close>

lemma make_manual_success:
  assumes "open_read w ''README.md'' = Inr t" and "convert t = Inr html"
    and "''manual.html'' \<notin> dirs w"
    and "open_read w ''header.html'' = Inr h" and "open_read w ''footer.html'' = Inr f"
  shows "make_manual convert w = (html, file_put ''manual.html'' (h @ f @ html) w)"
proof -
  let ?w1 = "file_put ''manual.html'' [] w"
  have "open_read ?w1 ''header.html'' = Inr h" "open_read ?w1 ''footer.html'' = Inr f"
    using assms(4,5) by (auto simp: open_read_def file_put_def split: if_splits)
  then have "write_parts ?w1 [''header.html'', ''footer.html''] [] = (None, h @ f)"
    by simp
  with assms(1,2,3) show ?thesis
    by (simp add: make_manual_def open_write_def file_put_def)
qed

text \<open>
  Claim C8. The claim asks for header, body, footer in manual.html. On the example
  world, with header \<open><body>\<close>, footer \<open></body>\<close> and the converted body
  \<open><p>hi</p>\<close>, \<open>make_manual\<close> returns the body alone but writes the header, then
  the footer, then the body.
\<close>

theorem make_manual_footer_before_body:
  "fst (make_manual example_convert manual_world) = ''<p>hi</p>'' \<and>
   files (snd (make_manual example_convert manual_world)) ''manual.html''
     = Some (''<body>'' @ ''</body>'' @ ''<p>hi</p>'') \<and>
   files (snd (make_manual example_convert manual_world)) ''manual.html''
     \<noteq> Some (''<body>'' @ ''<p>hi</p>'' @ ''</body>'')"
proof -
  have "make_manual example_convert manual_world
      = (''<p>hi</p>'', file_put ''manual.html'' (''<body>'' @ ''</body>'' @ ''<p>hi</p>'') manual_world)"
    by (rule make_manual_success)
       (simp_all add: open_read_def manual_world_def example_convert_def)
  then show ?thesis by (simp add: file_put_def)
qed


subsection \<open>What the patterns match\<close>

lemma lit_Some: "lit p k s = Some r \<longleftrightarrow> (\<exists>t. s = p @ t \<and> k t = Some r)"
  by (auto simp: lit_def prefix_def)

lemma lit_append: "lit p k (p @ t) = k t"
  by (simp add: lit_def)

lemma star_Some:
  "star P k s = Some (g, r) \<Longrightarrow> \<exists>t. s = g @ t \<and> (\<forall>c \<in> set g. P c) \<and> k t = Some r"
proof (induction s arbitrary: g r)
  case Nil
  then show ?case by auto
next
  case (Cons c cs)
  show ?case
  proof (cases "if P c then star P k cs else None")
    case None
    with Cons.prems show ?thesis by auto
  next
    case (Some a)
    obtain g' r' where a: "a = (g', r')" by (cases a)
    from Some a have pc: "P c" and st: "star P k cs = Some (g', r')"
      by (auto split: if_splits)
    from Cons.prems Some a have "g = c # g'" "r = r'" by auto
    with Cons.IH [OF st] pc show ?thesis by auto
  qed
qed

lemma star_complete:
  "\<forall>c \<in> set g. P c \<Longrightarrow> k t \<noteq> None \<Longrightarrow> star P k (g @ t) \<noteq> None"
proof (induction g)
  case Nil
  then show ?case by (cases t) (auto split: option.splits)
next
  case (Cons c g)
  then show ?case by (auto split: option.splits)
qed

subsection \<open>One line of the template\<close>

lemma script_pattern_app_js:
  \<open>script_pattern ''<script src="app.js"></script>\<newline>'' = Some ''app.js''\<close>
  by (simp add: script_pattern_def lit_def dot_def accept_def)

lemma version_pattern_contains:
  assumes "line = a @ ''Settings (version)'' @ b" and "NL \<notin> set a"
  shows "version_pattern line"
proof -
  have "star dot accept b \<noteq> None"
    using star_complete [of "[]" dot accept b] by (simp add: accept_def)
  then have "lit ''Settings (version)'' (star dot accept) (''Settings (version)'' @ b) \<noteq> None"
    by (metis lit_append)
  moreover have "\<forall>c \<in> set a. dot c" using assms(2) by (auto simp: dot_def)
  ultimately have "star dot (lit ''Settings (version)'' (star dot accept))
      (a @ ''Settings (version)'' @ b) \<noteq> None"
    by (rule star_complete [rotated])
  with assms(1) show ?thesis by (simp add: version_pattern_def)
qed

lemma embed_line_script:
  "script_pattern line = Some src \<Longrightarrow> open_read w src = Inr c \<Longrightarrow>
     embed_line manual version line w = Inr (''<script>\<newline>'' @ c @ ''</script>\<newline>'', w)"
  by (simp add: embed_line_def)


lemma embed_line_version:
  "script_pattern line = None \<Longrightarrow> version_pattern line \<Longrightarrow>
     embed_line manual version line w = Inr (py_replace ''version'' version line, w)"
  by (simp add: embed_line_def)

lemma embed_single_line:
  assumes "open_read w ''astrohopper.html'' = Inr template"
    and "''astrohopper_deploy.html'' \<notin> dirs w"
    and "file_lines template = [line]"
    and "embed_line manual version line (file_put ''astrohopper_deploy.html'' [] w) = Inr (chunk, w')"
  shows "embed manual version w = file_put ''astrohopper_deploy.html'' chunk w'"
  using assms by (simp add: embed_def open_write_def)

lemma open_read_file_put:
  "p \<noteq> q \<Longrightarrow> open_read (file_put q c w) p = open_read w p"
  by (simp add: open_read_def file_put_def)

lemma file_put_twice: "file_put p c (file_put p d w) = file_put p c w"
  by (simp add: file_put_def)

text \<open>
  Claim C2, amended. For the template line \<open><script src="app.js"></script>\<close>, when
  app.js can be read, the loop body writes \<open><script>\<close> and a line feed, then the
  contents of app.js, then \<open></script>\<close> and a line feed, with no line feed added
  after the contents. When the template is this one line, that text is the whole
  output file and nothing is printed.
\<close>

theorem script_line_inlined:
  assumes "open_read w ''app.js'' = Inr c"
  shows \<open>embed_line manual version ''<script src="app.js"></script>\<newline>'' w
           = Inr (''<script>\<newline>'' @ c @ ''</script>\<newline>'', w) \<and>
         (open_read w ''astrohopper.html'' = Inr ''<script src="app.js"></script>\<newline>'' \<and>
          ''astrohopper_deploy.html'' \<notin> dirs w \<longrightarrow>
          embed manual version w
            = file_put ''astrohopper_deploy.html'' (''<script>\<newline>'' @ c @ ''</script>\<newline>'') w)\<close>
proof (intro conjI impI)
  show \<open>embed_line manual version ''<script src="app.js"></script>\<newline>'' w
           = Inr (''<script>\<newline>'' @ c @ ''</script>\<newline>'', w)\<close>
    using script_pattern_app_js assms by (rule embed_line_script)
next
  let ?w1 = "file_put ''astrohopper_deploy.html'' [] w"
  assume a: \<open>open_read w ''astrohopper.html'' = Inr ''<script src="app.js"></script>\<newline>'' \<and>
          ''astrohopper_deploy.html'' \<notin> dirs w\<close>
  have "open_read ?w1 ''app.js'' = Inr c"
    using assms by (simp add: open_read_file_put)
  with script_pattern_app_js
  have \<open>embed_line manual version ''<script src="app.js"></script>\<newline>'' ?w1
           = Inr (''<script>\<newline>'' @ c @ ''</script>\<newline>'', ?w1)\<close>
    by (rule embed_line_script)
  moreover have \<open>file_lines ''<script src="app.js"></script>\<newline>''
      = [''<script src="app.js"></script>\<newline>'']\<close>
    by (simp add: file_lines_def)
  ultimately have "embed manual version w
      = file_put ''astrohopper_deploy.html'' (''<script>\<newline>'' @ c @ ''</script>\<newline>'') ?w1"
    using a by (intro embed_single_line) auto
  then show "embed manual version w
      = file_put ''astrohopper_deploy.html'' (''<script>\<newline>'' @ c @ ''</script>\<newline>'') w"
    by (simp only: file_put_twice)
qed

theorem script_line_inlined_witness:
  \<open>embed [] ''2.3.1'' script_world
     = file_put ''astrohopper_deploy.html'' ''<script>\<newline>x = 1;\<newline></script>\<newline>'' script_world\<close>
proof -
  have "open_read script_world ''app.js'' = Inr ''x = 1;\<newline>''"
    by (simp add: open_read_def script_world_def)
  from script_line_inlined [OF this, of "[]" "''2.3.1''"] show ?thesis
    by (simp add: open_read_def script_world_def)
qed

text \<open>
  The claim as stated fails: the output has no line feed between the contents of
  app.js and the closing tag.
\<close>

theorem script_line_extra_newline_counterexample:
  \<open>open_read script_world ''astrohopper.html'' = Inr ''<script src="app.js"></script>\<newline>'' \<and>
   open_read script_world ''app.js'' = Inr ''x = 1;\<newline>'' \<and>
   files (embed [] ''2.3.1'' script_world) ''astrohopper_deploy.html''
     = Some ''<script>\<newline>x = 1;\<newline></script>\<newline>'' \<and>
   files (embed [] ''2.3.1'' script_world) ''astrohopper_deploy.html''
     \<noteq> Some (''<script>\<newline>'' @ ''x = 1;\<newline>'' @ ''\<newline></script>\<newline>'')\<close>
proof -
  have t: \<open>open_read script_world ''astrohopper.html'' = Inr ''<script src="app.js"></script>\<newline>''\<close>
    and j: "open_read script_world ''app.js'' = Inr ''x = 1;\<newline>''"
    and d: "''astrohopper_deploy.html'' \<notin> dirs script_world"
    by (simp_all add: open_read_def script_world_def)
  have "open_read (file_put ''astrohopper_deploy.html'' [] script_world) ''app.js''
      = Inr ''x = 1;\<newline>''"
    using j by (simp add: open_read_file_put)
  with script_pattern_app_js
  have \<open>embed_line [] ''2.3.1'' ''<script src="app.js"></script>\<newline>''
           (file_put ''astrohopper_deploy.html'' [] script_world)
         = Inr (''<script>\<newline>'' @ ''x = 1;\<newline>'' @ ''</script>\<newline>'',
                file_put ''astrohopper_deploy.html'' [] script_world)\<close>
    by (rule embed_line_script)
  with t d have "embed [] ''2.3.1'' script_world
      = file_put ''astrohopper_deploy.html'' (''<script>\<newline>'' @ ''x = 1;\<newline>'' @ ''</script>\<newline>'')
          (file_put ''astrohopper_deploy.html'' [] script_world)"
    by (intro embed_single_line) (auto simp: file_lines_def)
  with t j show ?thesis by (simp add: file_put_def)
qed


text \<open>
  Claim C4, amended. A template line that contains \<open>Settings (version)\<close> before any
  line feed, and that does not match the script-include pattern (which is tested
  first), is written with every occurrence of \<open>version\<close> replaced by the version
  string, as \<open>str.replace\<close> does.
\<close>

theorem version_line_rewritten:
  assumes "line = a @ ''Settings (version)'' @ b" and "NL \<notin> set a"
    and "script_pattern line = None"
  shows "embed_line manual version line w = Inr (py_replace ''version'' version line, w)"
  using assms(3) version_pattern_contains [OF assms(1,2)] by (rule embed_line_version)

theorem version_line_rewritten_witness:
  "embed_line [] ''2.3.1'' ''<h1>Settings (version)</h1>\<newline>'' empty_world
     = Inr (''<h1>Settings (2.3.1)</h1>\<newline>'', empty_world)"
proof -
  have "script_pattern ''<h1>Settings (version)</h1>\<newline>'' = None"
    by (simp add: script_pattern_def lit_def)
  from version_line_rewritten [of _ "''<h1>''" "''</h1>\<newline>''", OF _ _ this, of "[]" "''2.3.1''" empty_world]
  show ?thesis by simp
qed

text \<open>
  The claim as stated fails on a line that matches both patterns: the script is
  inlined and the text \<open>version\<close> is not replaced.
\<close>

theorem version_line_script_first_counterexample:
  \<open>version_pattern ''<script src="app.js"></script><!-- Settings (version) -->\<newline>'' \<and>
   embed_line [] ''2.3.1'' ''<script src="app.js"></script><!-- Settings (version) -->\<newline>''
       script_world
     = Inr (''<script>\<newline>x = 1;\<newline></script>\<newline>'', script_world) \<and>
   py_replace ''version'' ''2.3.1''
       ''<script src="app.js"></script><!-- Settings (version) -->\<newline>''
     = ''<script src="app.js"></script><!-- Settings (2.3.1) -->\<newline>''\<close>
proof -
  have \<open>''<script src="app.js"></script><!-- Settings (version) -->\<newline>''
      = ''<script src="app.js"></script><!-- '' @ ''Settings (version)'' @ '' -->\<newline>''\<close>
    by simp
  then have v: \<open>version_pattern ''<script src="app.js"></script><!-- Settings (version) -->\<newline>''\<close>
    by (rule version_pattern_contains) simp
  have \<open>script_pattern ''<script src="app.js"></script><!-- Settings (version) -->\<newline>''
      = Some ''app.js''\<close>
    by (simp add: script_pattern_def lit_def dot_def accept_def)
  moreover have "open_read script_world ''app.js'' = Inr ''x = 1;\<newline>''"
    by (simp add: open_read_def script_world_def)
  ultimately have \<open>embed_line [] ''2.3.1''
      ''<script src="app.js"></script><!-- Settings (version) -->\<newline>'' script_world
     = Inr (''<script>\<newline>'' @ ''x = 1;\<newline>'' @ ''</script>\<newline>'', script_world)\<close>
    by (rule embed_line_script)
  with v show ?thesis by simp
qed


subsection \<open>Lines of a text\<close>

lemma lines_from_no_newline:
  "NL \<notin> set s \<Longrightarrow> lines_from cur s = (if cur @ s = [] then [] else [cur @ s])"
  by (induction s arbitrary: cur) auto

lemma lines_from_one_newline:
  "NL \<notin> set s \<Longrightarrow> lines_from cur (s @ [NL]) = [cur @ s @ [NL]]"
  by (induction s arbitrary: cur) auto

lemma file_lines_single:
  assumes "c \<noteq> []" and "NL \<notin> set (butlast c)"
  shows "file_lines c = [c]"
proof (cases "last c = NL")
  case True
  have "lines_from [] (butlast c @ [NL]) = [[] @ butlast c @ [NL]]"
    using assms(2) by (rule lines_from_one_newline)
  moreover have "butlast c @ [NL] = c"
    using assms(1) True by (metis append_butlast_last_id)
  ultimately show ?thesis by (simp add: file_lines_def)
next
  case False
  have "c = butlast c @ [last c]" using assms(1) by simp
  then have "set c = set (butlast c) \<union> {last c}"
    by (metis list.set(1) list.simps(15) set_append Un_insert_right sup_bot.right_neutral)
  with False assms(2) have "NL \<notin> set c" by auto
  from lines_from_no_newline [OF this, of "[]"] assms(1) show ?thesis
    by (simp add: file_lines_def)
qed

lemma lines_from_shape:
  "l \<in> set (lines_from cur s) \<Longrightarrow> NL \<notin> set cur \<Longrightarrow> l \<noteq> [] \<and> NL \<notin> set (butlast l)"
proof (induction s arbitrary: cur)
  case Nil
  then show ?case by (auto split: if_splits dest: in_set_butlastD)
next
  case (Cons c s)
  show ?case
  proof (cases "c = NL")
    case True
    with Cons.prems(1) have "l = cur @ [c] \<or> l \<in> set (lines_from [] s)" by simp
    then show ?thesis
    proof
      assume "l = cur @ [c]"
      with Cons.prems(2) show ?thesis by simp
    next
      assume "l \<in> set (lines_from [] s)"
      then show ?thesis by (rule Cons.IH) simp
    qed
  next
    case False
    with Cons.prems(1) have "l \<in> set (lines_from (cur @ [c]) s)" by simp
    then show ?thesis by (rule Cons.IH) (use False Cons.prems(2) in auto)
  qed
qed

lemma file_lines_shape:
  "l \<in> set (file_lines t) \<Longrightarrow> l \<noteq> [] \<and> NL \<notin> set (butlast l)"
  using lines_from_shape [of l "[]" t] by (simp add: file_lines_def)

subsection \<open>Replacement and Base64 keep a line a line\<close>

lemma prefix_Cons_drop:
  "prefix (a # old) (c # cs) \<Longrightarrow> c # cs = (a # old) @ drop (length old) cs"
  by (auto simp: prefix_def)

lemma py_replace_keeps_char:
  "x \<notin> set (a # old) \<Longrightarrow> x \<in> set s \<Longrightarrow> x \<in> set (py_replace (a # old) new s)"
proof (induction "a # old" new s rule: py_replace.induct)
  case (2 new)
  then show ?case by simp
next
  case (3 new c cs)
  show ?case
  proof (cases "prefix (a # old) (c # cs)")
    case True
    from prefix_Cons_drop [OF True] "3.prems" have "x \<in> set (drop (length old) cs)"
      by (metis Un_iff set_append)
    with "3.hyps"(1) [OF True "3.prems"(1)] True show ?thesis by simp
  next
    case False
    with "3.hyps"(2) [OF False "3.prems"(1)] "3.prems"(2) show ?thesis by auto
  qed
qed

lemma butlast_drop_subset: "set (butlast (drop n cs)) \<subseteq> set (butlast (c # cs))"
proof -
  have "set (butlast (drop n cs)) \<subseteq> set (butlast cs)"
    by (simp add: butlast_drop set_drop_subset)
  also have "\<dots> \<subseteq> set (butlast (c # cs))" by auto
  finally show ?thesis .
qed

lemma py_replace_line:
  "NL \<notin> set new \<Longrightarrow> NL \<notin> set (butlast s) \<Longrightarrow>
     NL \<notin> set (butlast (py_replace (a # old) new s))"
proof (induction "a # old" new s rule: py_replace.induct)
  case (2 new)
  then show ?case by simp
next
  case (3 new c cs)
  show ?case
  proof (cases "prefix (a # old) (c # cs)")
    case True
    have "NL \<notin> set (butlast (drop (length old) cs))"
      using "3.prems"(2) butlast_drop_subset [of "length old" cs c] by blast
    from "3.hyps"(1) [OF True "3.prems"(1) this] "3.prems"(1) True show ?thesis
      by (auto simp: butlast_append dest: in_set_butlastD)
  next
    case False
    show ?thesis
    proof (cases cs)
      case Nil
      with False show ?thesis by auto
    next
      case (Cons d ds)
      with "3.prems"(2) have "c \<noteq> NL" "NL \<notin> set (butlast cs)" by auto
      with "3.hyps"(2) [OF False "3.prems"(1)] False show ?thesis by auto
    qed
  qed
qed

lemma b64_digit_not_newline: "b64_digit n \<noteq> NL"
proof -
  let ?al = "''ABCDEFGHIJKLMNOPQRSTUVWXYZabcdefghijklmnopqrstuvwxyz0123456789+/''"
  have "length ?al = 64" by simp
  then have "n mod 64 < length ?al" by simp
  then have "?al ! (n mod 64) \<in> set ?al" by (rule nth_mem)
  moreover have "NL \<notin> set ?al" by simp
  ultimately show ?thesis unfolding b64_digit_def by metis
qed

lemma b64encode_no_newline: "NL \<notin> set (b64encode bs)"
  by (induction bs rule: b64encode.induct)
     (auto simp: Let_def b64_digit_not_newline b64_digit_not_newline [symmetric])


subsection \<open>The template pass\<close>

lemma open_read_cong:
  "files w' = files w \<Longrightarrow> dirs w' = dirs w \<Longrightarrow> open_read w' p = open_read w p"
  by (simp add: open_read_def)

lemma png_encode_cases:
  obtains e where "open_read w p = Inl e"
      "png_encode p w = ([], print (PrintErr ''Error encoding PNG: '' e) w)"
  | png where "open_read w p = Inr png"
      "png_encode p w = (''data:image/png;base64,'' @ b64encode png, w)"
  by (cases "open_read w p") (auto simp: png_encode_def)

lemma png_encode_effect:
  assumes "png_encode p w = (s, w')"
  shows "files w' = files w \<and> dirs w' = dirs w \<and> prefix (out w) (out w') \<and> NL \<notin> set s"
  using assms by (cases rule: png_encode_cases [of w p]) (auto simp: print_def b64encode_no_newline)

lemma png_encode_cong:
  assumes "files w' = files w" and "dirs w' = dirs w"
  shows "fst (png_encode p w') = fst (png_encode p w)"
  using open_read_cong [OF assms, of p] by (simp add: png_encode_def split: sum.splits)

lemma embed_line_ok:
  assumes "\<forall>src. script_pattern line = Some src \<longrightarrow> (\<exists>c. open_read w src = Inr c)"
  shows "\<exists>chunk w'. embed_line manual version line w = Inr (chunk, w') \<and>
     files w' = files w \<and> dirs w' = dirs w \<and> prefix (out w) (out w')"
proof (cases "script_pattern line")
  case (Some src)
  with assms obtain c where "open_read w src = Inr c" by blast
  with Some show ?thesis by (simp add: embed_line_def)
next
  case None
  show ?thesis
  proof (cases "version_pattern line")
    case True
    with None show ?thesis by (simp add: embed_line_def)
  next
    case False
    show ?thesis
    proof (cases "urlpng_pattern line")
      case (Some g)
      obtain g1 g2 g3 where g: "g = (g1, g2, g3)" by (cases g)
      obtain s w' where p: "png_encode g2 w = (s, w')" by (cases "png_encode g2 w")
      from png_encode_effect [OF p] None False Some g p show ?thesis
        by (simp add: embed_line_def)
    next
      case u: None
      show ?thesis
      proof (cases "urlpng2_pattern line")
        case (Some g)
        obtain g1 g2 g3 where g: "g = (g1, g2, g3)" by (cases g)
        obtain s w' where p: "png_encode g2 w = (s, w')" by (cases "png_encode g2 w")
        from png_encode_effect [OF p] None False u Some g p show ?thesis
          by (simp add: embed_line_def)
      next
        case u2: None
        with None False u show ?thesis by (simp add: embed_line_def)
      qed
    qed
  qed
qed

lemma line_output_cong:
  assumes "files w' = files w" and "dirs w' = dirs w"
  shows "line_output manual version w' line = line_output manual version w line"
  using open_read_cong [OF assms] png_encode_cong [OF assms]
  by (auto simp: line_output_def embed_line_def split_beta Let_def
           split: option.splits sum.splits)

lemma line_output_eq:
  "embed_line manual version line w = Inr (chunk, w') \<Longrightarrow> line_output manual version w line = chunk"
  by (simp add: line_output_def)

lemma embed_loop_ok:
  assumes "\<forall>l \<in> set ls. \<forall>src. script_pattern l = Some src \<longrightarrow> (\<exists>c. open_read w src = Inr c)"
  shows "\<exists>w'. embed_loop manual version ls buf w
       = (None, buf @ concat (map (line_output manual version w) ls), w') \<and>
     files w' = files w \<and> dirs w' = dirs w \<and> prefix (out w) (out w')"
  using assms
proof (induction ls arbitrary: buf w)
  case Nil
  then show ?case by simp
next
  case (Cons l ls)
  from Cons.prems have "\<forall>src. script_pattern l = Some src \<longrightarrow> (\<exists>c. open_read w src = Inr c)"
    by simp
  from embed_line_ok [OF this, of manual version]
  obtain chunk w1 where l: "embed_line manual version l w = Inr (chunk, w1)"
    and f: "files w1 = files w" "dirs w1 = dirs w" and o: "prefix (out w) (out w1)"
    by blast
  have "\<forall>l \<in> set ls. \<forall>src. script_pattern l = Some src \<longrightarrow> (\<exists>c. open_read w1 src = Inr c)"
    using Cons.prems open_read_cong [OF f] by simp
  from Cons.IH [OF this, of "buf @ chunk"]
  obtain w' where r: "embed_loop manual version ls (buf @ chunk) w1
       = (None, (buf @ chunk) @ concat (map (line_output manual version w1) ls), w')"
    and f': "files w' = files w1" "dirs w' = dirs w1" and o': "prefix (out w1) (out w')"
    by blast
  have "map (line_output manual version w1) ls = map (line_output manual version w) ls"
    using line_output_cong [OF f] by simp
  with l r line_output_eq [OF l] f f' o o' show ?case
    by (auto intro: prefix_order.trans)
qed




lemma embed_line_plain:
  assumes "script_pattern line = None" and "\<not> version_pattern line"
    and "urlpng_pattern line = None" and "urlpng2_pattern line = None"
    and "py_strip line \<noteq> ''MANUAL''"
  shows "embed_line manual version line w = Inr (line, w)"
  using assms by (simp add: embed_line_def)







subsection \<open>The patterns on the example lines\<close>








subsection \<open>What a match says about the line\<close>

lemma script_pattern_starts:
  assumes "script_pattern l = Some src"
  shows "CHR ''<'' \<in> set l"
proof -
  from assms obtain r where \<open>lit ''<script src="'' (star dot (lit ''"></script>'' accept)) l = Some r\<close>
    by (auto simp: script_pattern_def)
  then obtain t where \<open>l = ''<script src="'' @ t\<close>
    unfolding lit_Some by (elim exE conjE)
  then show ?thesis by simp
qed

lemma version_pattern_contains_S:
  assumes "version_pattern l"
  shows "CHR ''S'' \<in> set l"
proof -
  from assms obtain g r where "star dot (lit ''Settings (version)'' (star dot accept)) l = Some (g, r)"
    by (auto simp: version_pattern_def)
  from star_Some [OF this] obtain t where t: "l = g @ t"
    and "lit ''Settings (version)'' (star dot accept) t = Some r"
    by (elim exE conjE)
  then obtain t' where "t = ''Settings (version)'' @ t'"
    unfolding lit_Some by (elim exE conjE)
  with t show ?thesis by simp
qed

lemma urlpng_pattern_groups:
  assumes "urlpng_pattern l = Some (g1, g2, g3)"
  shows "NL \<notin> set g1 \<and> NL \<notin> set g3 \<and> CHR ''u'' \<in> set l"
proof -
  from assms obtain n u where s: "star dot (lit ''url('' (star name_char (lit ''.png'' (lit '')''
             (star dot eol))))) l = Some (g1, n, g3, u)"
    by (auto simp: urlpng_pattern_def split: option.splits)
  from star_Some [OF s] obtain t where l: "l = g1 @ t" and g1: "\<forall>c \<in> set g1. dot c"
    and t: "lit ''url('' (star name_char (lit ''.png'' (lit '')'' (star dot eol)))) t = Some (n, g3, u)"
    by (elim exE conjE)
  from t obtain t2 where t2: "t = ''url('' @ t2"
    and s2: "star name_char (lit ''.png'' (lit '')'' (star dot eol))) t2 = Some (n, g3, u)"
    unfolding lit_Some by (elim exE conjE)
  from star_Some [OF s2] obtain t3 where
    "lit ''.png'' (lit '')'' (star dot eol)) t3 = Some (g3, u)"
    by (elim exE conjE)
  then obtain t5 where "star dot eol t5 = Some (g3, u)"
    unfolding lit_Some by (elim exE conjE)
  from star_Some [OF this] have g3: "\<forall>c \<in> set g3. dot c" by (elim exE conjE)
  from g1 g3 l t2 show ?thesis by (auto simp: dot_def)
qed

lemma urlpng2_pattern_groups:
  assumes "urlpng2_pattern l = Some (g1, g2, g3)"
  shows "NL \<notin> set g1 \<and> NL \<notin> set g3 \<and> CHR ''<'' \<in> set l"
proof -
  from assms obtain a b n u where s: \<open>star dot (lit ''<img'' (star dot (lit ''src="'' (star path_char
             (lit ''.png'' (lit ''"'' (star dot eol))))))) l = Some (a, b, n, g3, u)\<close>
    and g: "g1 = a @ ''<img'' @ b"
    by (auto simp: urlpng2_pattern_def split: option.splits)
  from star_Some [OF s] obtain t where l: "l = a @ t" and a: "\<forall>c \<in> set a. dot c"
    and t: \<open>lit ''<img'' (star dot (lit ''src="'' (star path_char
             (lit ''.png'' (lit ''"'' (star dot eol)))))) t = Some (b, n, g3, u)\<close>
    by (elim exE conjE)
  from t obtain t2 where t2: "t = ''<img'' @ t2"
    and s2: \<open>star dot (lit ''src="'' (star path_char
             (lit ''.png'' (lit ''"'' (star dot eol))))) t2 = Some (b, n, g3, u)\<close>
    unfolding lit_Some by (elim exE conjE)
  from star_Some [OF s2] obtain t3 where b: "\<forall>c \<in> set b. dot c"
    and \<open>lit ''src="'' (star path_char (lit ''.png'' (lit ''"'' (star dot eol)))) t3 = Some (n, g3, u)\<close>
    by (elim exE conjE)
  then obtain t4 where \<open>star path_char (lit ''.png'' (lit ''"'' (star dot eol))) t4 = Some (n, g3, u)\<close>
    unfolding lit_Some by (elim exE conjE)
  from star_Some [OF this] obtain t5 where \<open>lit ''.png'' (lit ''"'' (star dot eol)) t5 = Some (g3, u)\<close>
    by (elim exE conjE)
  then obtain t7 where "star dot eol t7 = Some (g3, u)"
    unfolding lit_Some by (elim exE conjE)
  from star_Some [OF this] have g3: "\<forall>c \<in> set g3. dot c" by (elim exE conjE)
  from a b g3 g l t2 show ?thesis by (auto simp: dot_def)
qed

lemma set_dropWhile_cases: "x \<in> set xs \<Longrightarrow> P x \<or> x \<in> set (dropWhile P xs)"
  by (induction xs) auto

lemma set_strip_cases:
  assumes "x \<in> set l"
  shows "py_isspace x \<or> x \<in> set (py_strip l)"
proof -
  from set_dropWhile_cases [OF assms, of py_isspace]
  have "py_isspace x \<or> x \<in> set (rev (dropWhile py_isspace l))" by simp
  then show ?thesis
    using set_dropWhile_cases [of x "rev (dropWhile py_isspace l)" py_isspace]
    by (auto simp: py_strip_def)
qed

lemma manual_marker_no_pattern:
  assumes "py_strip l = ''MANUAL''"
  shows "script_pattern l = None" "\<not> version_pattern l"
    "urlpng_pattern l = None" "urlpng2_pattern l = None"
proof -
  have n: "x \<notin> set l" if "\<not> py_isspace x" "x \<notin> set ''MANUAL''" for x
    using set_strip_cases [of x l] that assms by auto
  have lt: "CHR ''<'' \<notin> set l" by (rule n) (simp_all add: py_isspace_def)
  have s: "CHR ''S'' \<notin> set l" by (rule n) (simp_all add: py_isspace_def)
  have u: "CHR ''u'' \<notin> set l" by (rule n) (simp_all add: py_isspace_def)
  show "script_pattern l = None"
    using lt script_pattern_starts [of l] by (cases "script_pattern l") auto
  show "\<not> version_pattern l"
    using s version_pattern_contains_S by blast
  show "urlpng_pattern l = None"
    using u urlpng_pattern_groups [of l] by (cases "urlpng_pattern l") auto
  show "urlpng2_pattern l = None"
    using lt urlpng2_pattern_groups [of l] by (cases "urlpng2_pattern l") auto
qed

lemma embed_line_manual:
  "py_strip line = ''MANUAL'' \<Longrightarrow> embed_line manual version line w = Inr (manual, w)"
  using manual_marker_no_pattern [of line] by (simp add: embed_line_def)


subsection \<open>One line in, one line out\<close>

lemma one_line_terminated:
  "NL \<notin> set x \<Longrightarrow> length (file_lines (x @ ''\<newline>'')) = 1"
  using file_lines_single [of "x @ ''\<newline>''"] by simp

lemma line_output_one_line:
  assumes "line \<noteq> []" and "NL \<notin> set (butlast line)" and "NL \<notin> set version"
    and "script_pattern line = None" and "py_strip line \<noteq> ''MANUAL''"
  shows "length (file_lines (line_output manual version w line)) = 1"
proof (cases "version_pattern line")
  case True
  let ?c = "py_replace ''version'' version line"
  have "CHR ''S'' \<in> set ?c"
    using version_pattern_contains_S [OF True] by (intro py_replace_keeps_char) simp_all
  then have "?c \<noteq> []" by auto
  moreover have "NL \<notin> set (butlast ?c)"
    using assms(3,2) by (rule py_replace_line)
  ultimately have "file_lines ?c = [?c]" by (rule file_lines_single)
  moreover have "line_output manual version w line = ?c"
    using embed_line_version [OF assms(4) True] by (rule line_output_eq)
  ultimately show ?thesis by simp
next
  case False
  show ?thesis
  proof (cases "urlpng_pattern line")
    case (Some g)
    obtain g1 g2 g3 where g: "g = (g1, g2, g3)" by (cases g)
    obtain s w' where p: "png_encode g2 w = (s, w')" by (cases "png_encode g2 w")
    have "NL \<notin> set (g1 @ ''url('' @ s @ '')'' @ g3)"
      using urlpng_pattern_groups [of line g1 g2 g3] png_encode_effect [OF p] Some g by simp
    then have "length (file_lines ((g1 @ ''url('' @ s @ '')'' @ g3) @ ''\<newline>'')) = 1"
      by (rule one_line_terminated)
    moreover have "line_output manual version w line = (g1 @ ''url('' @ s @ '')'' @ g3) @ ''\<newline>''"
      using assms(4) False Some g p by (simp add: line_output_def embed_line_def)
    ultimately show ?thesis by simp
  next
    case u: None
    show ?thesis
    proof (cases "urlpng2_pattern line")
      case (Some g)
      obtain g1 g2 g3 where g: "g = (g1, g2, g3)" by (cases g)
      obtain s w' where p: "png_encode g2 w = (s, w')" by (cases "png_encode g2 w")
      have \<open>NL \<notin> set (g1 @ ''src="'' @ s @ ''"'' @ g3)\<close>
        using urlpng2_pattern_groups [of line g1 g2 g3] png_encode_effect [OF p] Some g by simp
      then have \<open>length (file_lines ((g1 @ ''src="'' @ s @ ''"'' @ g3) @ ''\<newline>'')) = 1\<close>
        by (rule one_line_terminated)
      moreover have \<open>line_output manual version w line = (g1 @ ''src="'' @ s @ ''"'' @ g3) @ ''\<newline>''\<close>
        using assms(4) False u Some g p by (simp add: line_output_def embed_line_def)
      ultimately show ?thesis by simp
    next
      case None
      have "line_output manual version w line = line"
        using embed_line_plain [OF assms(4) False u None assms(5)] by (rule line_output_eq)
      moreover have "file_lines line = [line]"
        using assms(1,2) by (rule file_lines_single)
      ultimately show ?thesis by simp
    qed
  qed
qed

lemma embed_all_lines:
  assumes "open_read w ''astrohopper.html'' = Inr template"
    and "''astrohopper_deploy.html'' \<notin> dirs w"
    and "w1 = file_put ''astrohopper_deploy.html'' [] w"
    and "\<forall>l \<in> set (file_lines template). \<forall>src. script_pattern l = Some src \<longrightarrow>
       (\<exists>c. open_read w1 src = Inr c)"
  shows "files (embed manual version w) ''astrohopper_deploy.html''
     = Some (concat (map (line_output manual version w1) (file_lines template)))"
proof -
  let ?buf = "concat (map (line_output manual version w1) (file_lines template))"
  from embed_loop_ok [OF assms(4), of manual version "[]"]
  obtain w2 where r: "embed_loop manual version (file_lines template) [] w1 = (None, ?buf, w2)"
    unfolding append_Nil by blast
  have ow: "open_write w ''astrohopper_deploy.html'' = Inr w1"
    using assms(2,3) by (simp add: open_write_def)
  have "embed manual version w = file_put ''astrohopper_deploy.html'' ?buf w2"
    unfolding embed_def using assms(1) ow r by simp
  then show ?thesis by (simp add: file_put_def)
qed

text \<open>
  Claim C1, amended. When the template and every included script can be read, the
  output file is the concatenation, in the order of the template's lines, of what
  each line produces. A line that matches none of the five classifiers produces
  itself; a script include produces the inlined block; a manual marker produces the
  manual, however many lines that is; every line that is neither a script include
  nor a manual marker produces exactly one line, for a version string without line
  feed.
\<close>

theorem embed_output_line_by_line:
  assumes "open_read w ''astrohopper.html'' = Inr template"
    and "''astrohopper_deploy.html'' \<notin> dirs w"
    and "w1 = file_put ''astrohopper_deploy.html'' [] w"
    and "\<forall>l \<in> set (file_lines template). \<forall>src. script_pattern l = Some src \<longrightarrow>
       (\<exists>c. open_read w1 src = Inr c)"
    and "NL \<notin> set version"
  shows "files (embed manual version w) ''astrohopper_deploy.html''
       = Some (concat (map (line_output manual version w1) (file_lines template))) \<and>
     (\<forall>line \<in> set (file_lines template).
        (script_pattern line = None \<and> \<not> version_pattern line \<and>
         urlpng_pattern line = None \<and> urlpng2_pattern line = None \<and>
         py_strip line \<noteq> ''MANUAL'' \<longrightarrow>
           line_output manual version w1 line = line) \<and>
        (\<forall>src c. script_pattern line = Some src \<and> open_read w1 src = Inr c \<longrightarrow>
           line_output manual version w1 line = ''<script>\<newline>'' @ c @ ''</script>\<newline>'') \<and>
        (py_strip line = ''MANUAL'' \<longrightarrow> line_output manual version w1 line = manual) \<and>
        (script_pattern line = None \<and> py_strip line \<noteq> ''MANUAL'' \<longrightarrow>
           length (file_lines (line_output manual version w1 line)) = 1))"
proof (intro conjI ballI impI allI)
  show "files (embed manual version w) ''astrohopper_deploy.html''
       = Some (concat (map (line_output manual version w1) (file_lines template)))"
    using assms(1-4) by (rule embed_all_lines)
next
  fix line
  assume "script_pattern line = None \<and> \<not> version_pattern line \<and>
         urlpng_pattern line = None \<and> urlpng2_pattern line = None \<and>
         py_strip line \<noteq> ''MANUAL''"
  then have "embed_line manual version line w1 = Inr (line, w1)"
    by (intro embed_line_plain) simp_all
  then show "line_output manual version w1 line = line" by (rule line_output_eq)
next
  fix line src c
  assume a: "script_pattern line = Some src \<and> open_read w1 src = Inr c"
  from a [THEN conjunct1] a [THEN conjunct2] have "embed_line manual version line w1
      = Inr (''<script>\<newline>'' @ c @ ''</script>\<newline>'', w1)"
    by (rule embed_line_script)
  then show "line_output manual version w1 line = ''<script>\<newline>'' @ c @ ''</script>\<newline>''"
    by (rule line_output_eq)
next
  fix line
  assume "py_strip line = ''MANUAL''"
  then have "embed_line manual version line w1 = Inr (manual, w1)"
    by (rule embed_line_manual)
  then show "line_output manual version w1 line = manual" by (rule line_output_eq)
next
  fix line
  assume l: "line \<in> set (file_lines template)"
    and a: "script_pattern line = None \<and> py_strip line \<noteq> ''MANUAL''"
  from file_lines_shape [OF l] a assms(5)
  show "length (file_lines (line_output manual version w1 line)) = 1"
    by (intro line_output_one_line) simp_all
qed


lemma patterns_html:
  "script_pattern ''<html>\<newline>'' = None" "\<not> version_pattern ''<html>\<newline>''"
  "urlpng_pattern ''<html>\<newline>'' = None" "urlpng2_pattern ''<html>\<newline>'' = None"
  "py_strip ''<html>\<newline>'' \<noteq> ''MANUAL''"
  by code_simp+

lemma patterns_settings:
  "script_pattern ''<h1>Settings (version)</h1>\<newline>'' = None"
  "version_pattern ''<h1>Settings (version)</h1>\<newline>''"
  by code_simp+

lemma strip_marker:
  "py_strip ''  MANUAL \<newline>'' = ''MANUAL''" "py_strip ''MANUAL\<newline>'' = ''MANUAL''"
  by code_simp+

theorem embed_output_line_by_line_witness:
  "files (embed ''<p>a</p>\<newline><p>b</p>\<newline>'' ''2.3.1'' page_world) ''astrohopper_deploy.html''
     = Some ''<html>\<newline><p>a</p>\<newline><p>b</p>\<newline><h1>Settings (2.3.1)</h1>\<newline>''"
proof -
  let ?m = "''<p>a</p>\<newline><p>b</p>\<newline>''"
  let ?t = "''<html>\<newline>  MANUAL \<newline><h1>Settings (version)</h1>\<newline>''"
  let ?w1 = "file_put ''astrohopper_deploy.html'' [] page_world"
  have t: "open_read page_world ''astrohopper.html'' = Inr ?t"
    and d: "''astrohopper_deploy.html'' \<notin> dirs page_world"
    by (simp_all add: open_read_def page_world_def)
  have l: "file_lines ?t
      = [''<html>\<newline>'', ''  MANUAL \<newline>'', ''<h1>Settings (version)</h1>\<newline>'']"
    by (simp add: file_lines_def)
  have s: "\<forall>l \<in> set (file_lines ?t). \<forall>src. script_pattern l = Some src \<longrightarrow>
       (\<exists>c. open_read ?w1 src = Inr c)"
    unfolding l
    by (simp add: patterns_html patterns_settings manual_marker_no_pattern [OF strip_marker(1)])
  have v: "NL \<notin> set ''2.3.1''" by simp
  have o1: "line_output ?m ''2.3.1'' ?w1 ''<html>\<newline>'' = ''<html>\<newline>''"
    using embed_line_plain [OF patterns_html] by (rule line_output_eq)
  have o2: "line_output ?m ''2.3.1'' ?w1 ''  MANUAL \<newline>'' = ?m"
    using embed_line_manual [OF strip_marker(1)] by (rule line_output_eq)
  have o3: "line_output ?m ''2.3.1'' ?w1 ''<h1>Settings (version)</h1>\<newline>''
      = py_replace ''version'' ''2.3.1'' ''<h1>Settings (version)</h1>\<newline>''"
    using embed_line_version [OF patterns_settings] by (rule line_output_eq)
  from embed_output_line_by_line [OF t d refl s v, of ?m, THEN conjunct1]
  show ?thesis unfolding l by (simp add: o1 o2 o3)
qed

text \<open>
  The claim as stated fails on a manual marker: one template line, not a script
  include, produces the two lines of the manual.
\<close>

theorem manual_marker_many_lines_counterexample:
  "open_read marker_world ''astrohopper.html'' = Inr ''MANUAL\<newline>'' \<and>
   file_lines ''MANUAL\<newline>'' = [''MANUAL\<newline>''] \<and>
   script_pattern ''MANUAL\<newline>'' = None \<and>
   files (embed ''<p>a</p>\<newline><p>b</p>\<newline>'' ''2.3.1'' marker_world) ''astrohopper_deploy.html''
     = Some ''<p>a</p>\<newline><p>b</p>\<newline>'' \<and>
   length (file_lines ''<p>a</p>\<newline><p>b</p>\<newline>'') = 2"
proof -
  let ?m = "''<p>a</p>\<newline><p>b</p>\<newline>''"
  have t: "open_read marker_world ''astrohopper.html'' = Inr ''MANUAL\<newline>''"
    and d: "''astrohopper_deploy.html'' \<notin> dirs marker_world"
    by (simp_all add: open_read_def marker_world_def)
  have l: "file_lines ''MANUAL\<newline>'' = [''MANUAL\<newline>'']"
    by (simp add: file_lines_def)
  have "embed ?m ''2.3.1'' marker_world
      = file_put ''astrohopper_deploy.html'' ?m (file_put ''astrohopper_deploy.html'' [] marker_world)"
    using t d l embed_line_manual [OF strip_marker(2)] by (rule embed_single_line)
  then have "files (embed ?m ''2.3.1'' marker_world) ''astrohopper_deploy.html'' = Some ?m"
    by (simp add: file_put_def)
  moreover have "length (file_lines ?m) = 2" by (simp add: file_lines_def)
  ultimately show ?thesis
    using t l manual_marker_no_pattern(1) [OF strip_marker(2)] by simp
qed


subsection \<open>One copy\<close>



subsection \<open>Destinations of the listed files\<close>






subsection \<open>The loop over the listed files\<close>








subsection \<open>The whole deployment\<close>










subsection \<open>The version string is one line\<close>

lemma readline_shape: "NL \<notin> set (butlast (readline c))"
  by (induction c) auto

lemma butlast_dropWhile_subset: "set (butlast (dropWhile P s)) \<subseteq> set (butlast s)"
proof (induction s)
  case Nil
  show ?case by simp
next
  case (Cons a s)
  then show ?case by (auto split: if_splits)
qed

lemma py_strip_no_newline:
  assumes "NL \<notin> set (butlast s)"
  shows "NL \<notin> set (py_strip s)"
proof -
  let ?t = "dropWhile py_isspace s"
  have b: "NL \<notin> set (butlast ?t)"
    using assms butlast_dropWhile_subset [of py_isspace s] by blast
  show ?thesis
  proof (cases ?t rule: rev_cases)
    case Nil
    show ?thesis unfolding py_strip_def Nil by simp
  next
    case (snoc t' x)
    with b have n: "NL \<notin> set t'" by simp
    show ?thesis
    proof (cases "py_isspace x")
      case True
      have "set (dropWhile py_isspace (rev t')) \<subseteq> set (rev t')" by (rule set_dropWhileD [THEN subsetI])
      with n True show ?thesis unfolding py_strip_def snoc by auto
    next
      case False
      then have "x \<noteq> NL" by (auto simp: py_isspace_def)
      with n False show ?thesis unfolding py_strip_def snoc by simp
    qed
  qed
qed

lemma py_split_pieces:
  "x \<in> set (py_split sep cur s) \<Longrightarrow> set x \<subseteq> set cur \<union> set s"
proof (induction sep cur s rule: py_split.induct)
  case (1 sep cur)
  then show ?case by simp
next
  case (2 sep cur c cs)
  show ?case
  proof (cases "sep \<noteq> [] \<and> prefix sep (c # cs)")
    case True
    with "2.prems" have "x = cur \<or> x \<in> set (py_split sep [] (drop (length sep - 1) cs))"
      by simp
    then show ?thesis
    proof
      assume "x = cur"
      then show ?thesis by auto
    next
      assume "x \<in> set (py_split sep [] (drop (length sep - 1) cs))"
      from "2.IH"(1) [OF True this] have "set x \<subseteq> set (drop (length sep - 1) cs)" by simp
      also have "\<dots> \<subseteq> set cs" by (rule set_drop_subset)
      finally show ?thesis by auto
    qed
  next
    case False
    with "2.prems" have "x \<in> set (py_split sep (cur @ [c]) cs)" by auto
    from "2.IH"(2) [OF False this] show ?thesis by auto
  qed
qed

text \<open>The version that \<open>get_ver\<close> returns never contains a line feed.\<close>

lemma get_ver_no_newline:
  assumes "get_ver w = (Some version, w')"
  shows "NL \<notin> set version"
proof (cases "open_read w ''Changelog.md''")
  case (Inl e)
  with assms show ?thesis by (simp add: get_ver_def)
next
  case (Inr c)
  from get_ver_readable [OF Inr] assms
  have v: "version = last (py_split '': v'' [] (py_strip (readline c)))" by simp
  have "version \<in> set (py_split '': v'' [] (py_strip (readline c)))"
    unfolding v by (rule last_in_set) (rule py_split_not_Nil)
  from py_split_pieces [OF this] have "set version \<subseteq> set (py_strip (readline c))" by simp
  with py_strip_no_newline [OF readline_shape] show ?thesis by blast
qed


end
